theory Spec2Isabelle
  imports
    Main
    "HOL-Library.List_Lexorder"
    "HOL-Library.Product_Lexorder"
    "HOL-Library.Multiset"
    "HOL-Library.Sublist"
begin

section \<open>qkay/index.py: ordering, shuffling, anonymising and repeating reports\<close>

text \<open>
  A shallow embedding of \<^verbatim>\<open>src/qkay/index.py\<close>. Python's integers are \<open>int\<close>.

  A Python \<^verbatim>\<open>str\<close> is a sequence of Unicode code points. Where the module looks inside a
  file name (\<open>define_order\<close> and what it calls) a name is a \<open>ustring\<close>, the list of its
  code points, and \<open>uni\<close> writes an ASCII text as one. The classes \<^verbatim>\<open>\w\<close> and \<^verbatim>\<open>\d\<close> of
  Python's \<^verbatim>\<open>re\<close> and the digits that \<^verbatim>\<open>int\<close> accepts follow the Unicode character
  database beyond ASCII; that table is not part of the repository and is a parameter
  (\<open>unicode\<close>), so that what is proved holds whatever the table says.
\<close>

type_synonym ustring = "nat list"

definition uni :: "string \<Rightarrow> ustring" where
  "uni s = map of_char s"

text \<open>
  The part of the Unicode character database the module depends on, for the code points
  from 128 on:
  \<^item> \<open>uni_alnum c\<close>: \<^verbatim>\<open>chr(c).isalnum()\<close>, the characters that \<^verbatim>\<open>\w\<close> matches beyond ASCII;
  \<^item> \<open>uni_decimal c\<close>: the value of \<open>c\<close> when it is a decimal digit (category Nd), the
    characters that \<^verbatim>\<open>\d\<close> matches and \<^verbatim>\<open>int\<close> reads as digits.
\<close>

record unicode =
  uni_alnum :: "nat \<Rightarrow> bool"
  uni_decimal :: "nat \<Rightarrow> nat option"

subsection \<open>Exceptions\<close>

text \<open>
  The exceptions the module can raise, as values.
  \<^item> \<open>PatternNotFound\<close>: \<^verbatim>\<open>re.search(...)\<close> returned \<^verbatim>\<open>None\<close> and \<^verbatim>\<open>.group(1)\<close> was called
    on it (Python's AttributeError), line 36;
  \<^item> \<open>ValueError\<close>: \<^verbatim>\<open>int(...)\<close> on a string that is no integer literal or has too many
    digits (lines 46, 50, 54 and 58), or \<^verbatim>\<open>random.sample\<close> asked for more items than the
    population holds, or for a negative number of them (lines 149 and 158).
\<close>

datatype error = PatternNotFound | ValueError

subsection \<open>The regular expressions of the module\<close>

text \<open>
  Every pattern of the module is a sequence of literal characters, of \<^verbatim>\<open>.*\<close>, and of one
  group \<^verbatim>\<open>(\w+)\<close> or \<^verbatim>\<open>(\d+)\<close>. A pattern is a list of such atoms; the matcher is the
  backtracking matcher of Python's \<^verbatim>\<open>re\<close>: a repetition is greedy (it first takes as many
  characters as it can and gives them back one by one while the rest of the pattern
  fails), and \<^verbatim>\<open>re.search\<close> tries the start positions from left to right.
\<close>

datatype cls = Word | Digit | Dot

datatype atom = Ch nat | Star cls | Group cls

definition ascii_digit :: "nat \<Rightarrow> bool" where
  "ascii_digit c = (of_char CHR ''0'' \<le> c \<and> c \<le> of_char CHR ''9'')"

definition ascii_alpha :: "nat \<Rightarrow> bool" where
  "ascii_alpha c =
     ((of_char CHR ''a'' \<le> c \<and> c \<le> of_char CHR ''z'') \<or>
      (of_char CHR ''A'' \<le> c \<and> c \<le> of_char CHR ''Z''))"

text \<open>The value of a decimal digit, \<open>None\<close> for any other character.\<close>

definition decimal :: "unicode \<Rightarrow> nat \<Rightarrow> nat option" where
  "decimal U c =
     (if c < 128 then (if ascii_digit c then Some (c - of_char CHR ''0'') else None)
      else uni_decimal U c)"

text \<open>\<^verbatim>\<open>\w\<close> is an alphanumeric character or the underscore, \<^verbatim>\<open>\d\<close> a decimal digit, and
  the dot any character but the line feed.\<close>

fun in_cls :: "unicode \<Rightarrow> cls \<Rightarrow> nat \<Rightarrow> bool" where
  "in_cls U Word c =
     (if c < 128 then ascii_alpha c \<or> ascii_digit c \<or> c = of_char CHR ''_''
      else uni_alnum U c)"
| "in_cls U Digit c = (decimal U c \<noteq> None)"
| "in_cls U Dot c = (c \<noteq> 10)"

text \<open>
  \<open>greedy p k acc s\<close>: the repetition has consumed \<open>acc\<close>; it consumes the characters of
  \<open>s\<close> that satisfy \<open>p\<close> for as long as it can, then runs the rest of the pattern \<open>k\<close>,
  and on failure gives the last character back. The result is what the repetition
  consumed in the end, with the result of the rest.
\<close>

fun greedy :: "(nat \<Rightarrow> bool) \<Rightarrow> (ustring \<Rightarrow> 'r option) \<Rightarrow> ustring \<Rightarrow> ustring \<Rightarrow> (ustring \<times> 'r) option" where
  "greedy p k acc [] = map_option (Pair acc) (k [])"
| "greedy p k acc (c # cs) =
     (if p c then
        (case greedy p k (acc @ [c]) cs of
           Some r \<Rightarrow> Some r
         | None \<Rightarrow> map_option (Pair acc) (k (c # cs)))
      else map_option (Pair acc) (k (c # cs)))"

text \<open>
  \<open>match_here U p s\<close>: the pattern \<open>p\<close> matches at the start of \<open>s\<close>; the result lists the
  captured groups (\<^verbatim>\<open>m.group(1)\<close> is the first).
\<close>

primrec match_here :: "unicode \<Rightarrow> atom list \<Rightarrow> ustring \<Rightarrow> ustring list option" where
  "match_here U [] = (\<lambda>s. Some [])"
| "match_here U (a # r) = (\<lambda>s.
     case a of
       Ch c \<Rightarrow> (case s of [] \<Rightarrow> None | d # ds \<Rightarrow> if d = c then match_here U r ds else None)
     | Star k \<Rightarrow> map_option snd (greedy (in_cls U k) (match_here U r) [] s)
     | Group k \<Rightarrow>
         (case s of
            [] \<Rightarrow> None
          | d # ds \<Rightarrow>
              if in_cls U k d
              then map_option (\<lambda>(g, gs). g # gs) (greedy (in_cls U k) (match_here U r) [d] ds)
              else None))"

fun re_search :: "unicode \<Rightarrow> atom list \<Rightarrow> ustring \<Rightarrow> ustring list option" where
  "re_search U p [] = match_here U p []"
| "re_search U p (c # cs) =
     (case match_here U p (c # cs) of Some gs \<Rightarrow> Some gs | None \<Rightarrow> re_search U p cs)"

definition lit :: "string \<Rightarrow> atom list" where
  "lit s = map Ch (uni s)"

text \<open>\<^verbatim>\<open>r'sub-(\w+)_'\<close>, \<^verbatim>\<open>r'run-(\w+)_'\<close>, \<^verbatim>\<open>r'ses-excl(\d+)_'\<close>,
  \<^verbatim>\<open>r'ses-pilot(\d+)_'\<close> and \<^verbatim>\<open>r'ses-(\d+)_'\<close>.\<close>

definition sub_pattern :: "atom list" where
  "sub_pattern = lit ''sub-'' @ [Group Word, Ch (of_char CHR ''_'')]"

definition run_pattern :: "atom list" where
  "run_pattern = lit ''run-'' @ [Group Word, Ch (of_char CHR ''_'')]"

definition excl_pattern :: "atom list" where
  "excl_pattern = lit ''ses-excl'' @ [Group Digit, Ch (of_char CHR ''_'')]"

definition pilot_pattern :: "atom list" where
  "pilot_pattern = lit ''ses-pilot'' @ [Group Digit, Ch (of_char CHR ''_'')]"

definition session_pattern :: "atom list" where
  "session_pattern = lit ''ses-'' @ [Group Digit, Ch (of_char CHR ''_'')]"

text \<open>\<^verbatim>\<open>MODALITY_ORDER = ["_T1w", "task-qct.*_bold", "task-bht.*_bold", "task_rest.*_bold", "_T2w"]\<close>\<close>

definition MODALITY_ORDER :: "atom list list" where
  "MODALITY_ORDER =
     [lit ''_T1w'',
      lit ''task-qct'' @ [Star Dot] @ lit ''_bold'',
      lit ''task-bht'' @ [Star Dot] @ lit ''_bold'',
      lit ''task_rest'' @ [Star Dot] @ lit ''_bold'',
      lit ''_T2w'']"

subsection \<open>\<^verbatim>\<open>int(s)\<close> on a captured group\<close>

text \<open>
  \<^verbatim>\<open>int\<close> is called on captures of \<^verbatim>\<open>\w+\<close> and \<^verbatim>\<open>\d+\<close> only, so a sign or surrounding
  white space never reaches it. On such a string Python accepts decimal digits (of any
  script), with single underscores between digits (\<^verbatim>\<open>int("1_2") == 12\<close>), and raises
  ValueError on everything else.

  CPython also limits the number of digits of the string: with more than 640 digits,
  and more than \<^verbatim>\<open>sys.get_int_max_str_digits()\<close> of them when that limit is not 0, \<^verbatim>\<open>int\<close>
  raises ValueError. The limit is a setting of the interpreter (4300 unless changed,
  0 for none, never between 1 and 639) and a parameter here, \<open>max_str_digits\<close>.
  Underscores do not count as digits, leading zeros do.
\<close>

fun int_literal :: "unicode \<Rightarrow> ustring \<Rightarrow> bool" where
  "int_literal U [] = False"
| "int_literal U [c] = (decimal U c \<noteq> None)"
| "int_literal U (c # d # s) =
     (decimal U c \<noteq> None \<and>
      (if d = of_char CHR ''_'' then int_literal U s else int_literal U (d # s)))"

definition digits_of :: "ustring \<Rightarrow> ustring" where
  "digits_of s = filter (\<lambda>c. c \<noteq> of_char CHR ''_'') s"

definition digits_accepted :: "nat \<Rightarrow> ustring \<Rightarrow> bool" where
  "digits_accepted max_str_digits s =
     (\<not> (640 < length (digits_of s) \<and> 0 < max_str_digits \<and>
         max_str_digits < length (digits_of s)))"

definition py_int :: "unicode \<Rightarrow> nat \<Rightarrow> ustring \<Rightarrow> error + int" where
  "py_int U max_str_digits s =
     (if int_literal U s \<and> digits_accepted max_str_digits s
      then Inr (foldl (\<lambda>a c. 10 * a + int (the (decimal U c))) 0 (digits_of s))
      else Inl ValueError)"

subsection \<open>\<^verbatim>\<open>define_order\<close>\<close>

type_synonym sort_key = "ustring \<times> int \<times> int \<times> int \<times> int"

text \<open>Line 36: \<^verbatim>\<open>re.search(r'sub-(\w+)_', file).group(1)\<close>.\<close>

definition subject_id :: "unicode \<Rightarrow> ustring \<Rightarrow> error + ustring" where
  "subject_id U file =
     (case re_search U sub_pattern file of
        None \<Rightarrow> Inl PatternNotFound
      | Some gs \<Rightarrow> Inr (hd gs))"

text \<open>Lines 39 to 43: the index of the first pattern of the list that the name matches,
  the length of the list when none does. \<open>i\<close> is the index of the head of \<open>ps\<close>.\<close>

fun modality_loop :: "unicode \<Rightarrow> int \<Rightarrow> atom list list \<Rightarrow> ustring \<Rightarrow> int" where
  "modality_loop U i [] file = int (length MODALITY_ORDER)"
| "modality_loop U i (pattern # ps) file =
     (if re_search U pattern file \<noteq> None then i else modality_loop U (i + 1) ps file)"

definition modality_priority :: "unicode \<Rightarrow> ustring \<Rightarrow> int" where
  "modality_priority U file = modality_loop U 0 MODALITY_ORDER file"

text \<open>Lines 45 and 46.\<close>

definition run_id :: "unicode \<Rightarrow> nat \<Rightarrow> ustring \<Rightarrow> error + int" where
  "run_id U max_str_digits file =
     (case re_search U run_pattern file of
        None \<Rightarrow> Inr 0
      | Some gs \<Rightarrow> py_int U max_str_digits (hd gs))"

text \<open>Lines 48 to 60: the cascade over the three session patterns. The capture of
  \<^verbatim>\<open>(\d+)\<close> goes through \<^verbatim>\<open>int\<close> as well.\<close>

definition session_class :: "unicode \<Rightarrow> nat \<Rightarrow> ustring \<Rightarrow> error + (int \<times> int)" where
  "session_class U max_str_digits file =
     (case re_search U excl_pattern file of
        Some gs \<Rightarrow>
          (case py_int U max_str_digits (hd gs) of Inl e \<Rightarrow> Inl e | Inr n \<Rightarrow> Inr (1, n))
      | None \<Rightarrow>
     (case re_search U pilot_pattern file of
        Some gs \<Rightarrow>
          (case py_int U max_str_digits (hd gs) of Inl e \<Rightarrow> Inl e | Inr n \<Rightarrow> Inr (2, n))
      | None \<Rightarrow>
     (case re_search U session_pattern file of
        Some gs \<Rightarrow>
          (case py_int U max_str_digits (hd gs) of Inl e \<Rightarrow> Inl e | Inr n \<Rightarrow> Inr (3, n))
      | None \<Rightarrow> Inr (4, 0))))"

text \<open>The statements run in the source's order, so the first exception raised is the one
  the caller sees: the subject id, then the modality, then the run id, then the
  session.\<close>

definition define_order :: "unicode \<Rightarrow> nat \<Rightarrow> ustring \<Rightarrow> error + sort_key" where
  "define_order U max_str_digits file =
     (case subject_id U file of
        Inl e \<Rightarrow> Inl e
      | Inr sid \<Rightarrow>
          (let mp = modality_priority U file in
           case run_id U max_str_digits file of
             Inl e \<Rightarrow> Inl e
           | Inr rid \<Rightarrow>
               (case session_class U max_str_digits file of
                  Inl e \<Rightarrow> Inl e
                | Inr (st, sn) \<Rightarrow> Inr (sid, mp, st, sn, rid))))"

subsection \<open>\<^verbatim>\<open>list.sort(key=...)\<close>\<close>

text \<open>
  \<^verbatim>\<open>list.sort(key=f)\<close> computes the key of every element first, from left to right (an
  exception of \<open>f\<close> ends the sort), then sorts by the keys alone, stably. Tuples and
  strings compare lexicographically, strings by code point, as the product and list
  orders here do.
\<close>

fun keyed :: "('a \<Rightarrow> error + 'k) \<Rightarrow> 'a list \<Rightarrow> error + ('k \<times> 'a) list" where
  "keyed f [] = Inr []"
| "keyed f (x # xs) =
     (case f x of
        Inl e \<Rightarrow> Inl e
      | Inr k \<Rightarrow> (case keyed f xs of Inl e \<Rightarrow> Inl e | Inr kxs \<Rightarrow> Inr ((k, x) # kxs)))"

definition list_sort :: "('a \<Rightarrow> error + 'k::linorder) \<Rightarrow> 'a list \<Rightarrow> error + 'a list" where
  "list_sort f xs =
     (case keyed f xs of
        Inl e \<Rightarrow> Inl e
      | Inr kxs \<Rightarrow> Inr (map snd (sort_key fst kxs)))"

subsection \<open>\<^verbatim>\<open>list_individual_reports\<close>\<close>

text \<open>
  The file system is read through \<^verbatim>\<open>glob.glob\<close> only, which is a parameter here:
  \<open>glob pattern recursive\<close> is the list of paths it returns.
  \<^verbatim>\<open>os.path.basename\<close> keeps what follows the last slash.
\<close>

definition basename :: "ustring \<Rightarrow> ustring" where
  "basename p = rev (takeWhile (\<lambda>c. c \<noteq> of_char CHR ''/'') (rev p))"

definition list_individual_reports ::
    "unicode \<Rightarrow> nat \<Rightarrow> (ustring \<Rightarrow> bool \<Rightarrow> ustring list) \<Rightarrow> ustring \<Rightarrow> bool \<Rightarrow> error + ustring list" where
  "list_individual_reports U max_str_digits glob path_reports two_folders =
     (let list_of_files =
        (if two_folders then
           (let list_of_file_condition1 =
                  map (\<lambda>filename. uni ''/condition1/'' @ basename filename)
                    (glob (path_reports @ uni ''condition1/'' @ uni ''sub-*.html'') False);
                list_of_file_condition2 =
                  map (\<lambda>filename. uni ''/condition2/'' @ basename filename)
                    (glob (path_reports @ uni ''condition2/'' @ uni ''sub-*.html'') False)
            in list_of_file_condition1 @ list_of_file_condition2)
         else map basename (glob (path_reports @ uni ''/**/sub-*.html'') True))
      in list_sort (define_order U max_str_digits) list_of_files)"

subsection \<open>Strings: \<^verbatim>\<open>str(i)\<close>, \<^verbatim>\<open>in\<close> and \<^verbatim>\<open>str.replace\<close>\<close>

text \<open>
  The functions that shuffle, label and repeat the reports never look inside a name
  but for the ASCII text \<^verbatim>\<open>condition1\<close>. In them a name is a \<open>string\<close>, the bytes of its
  UTF-8 encoding: searching and replacing an ASCII text gives the same on the bytes as
  on the code points.
\<close>

definition digit_char :: "nat \<Rightarrow> char" where
  "digit_char d = char_of (48 + d)"

function str_nat :: "nat \<Rightarrow> string" where
  "str_nat n = (if n < 10 then [digit_char n] else str_nat (n div 10) @ [digit_char (n mod 10)])"
  by pat_completeness auto
termination
  by (relation "measure id") auto

definition py_str :: "int \<Rightarrow> string" where
  "py_str i = (if i < 0 then CHR ''-'' # str_nat (nat (- i)) else str_nat (nat i))"

text \<open>\<^verbatim>\<open>sub in s\<close>: \<open>sub\<close> starts at some position of \<open>s\<close>.\<close>

fun contains :: "string \<Rightarrow> string \<Rightarrow> bool" where
  "contains sub [] = (sub = [])"
| "contains sub (c # cs) = (prefix sub (c # cs) \<or> contains sub cs)"

text \<open>\<^verbatim>\<open>s.replace(old, new)\<close>: the occurrences of \<open>old\<close> are replaced from left to right,
  without overlap; for the empty \<open>old\<close>, \<open>new\<close> goes before every character and at the
  end.\<close>

function replace :: "string \<Rightarrow> string \<Rightarrow> string \<Rightarrow> string" where
  "replace old new [] = (if old = [] then new else [])"
| "replace old new (c # cs) =
     (if old = [] then new @ c # replace old new cs
      else if prefix old (c # cs) then new @ replace old new (drop (length old) (c # cs))
      else c # replace old new cs)"
  by pat_completeness auto
termination
  by (relation "measure (\<lambda>(old, new, s). length s)") auto

subsection \<open>The state: list objects, the generator of \<^verbatim>\<open>random\<close>, the file demo.txt\<close>

text \<open>
  Python passes a list by reference, and two of the functions below differ in whether
  they write to the caller's list. A list object therefore lives in a heap, and the
  functions take and return references: the heap is the list of all list objects, a
  reference is a position in it, and a new object goes to the end. \<open>rng\<close> is the state
  of the module-level generator of \<^verbatim>\<open>random\<close>; \<open>demo_txt\<close> is the content of the file
  \<^verbatim>\<open>demo.txt\<close> of the working directory (the two lists printed to it), \<open>None\<close> while
  it has not been written. Writing the file is taken to succeed.
\<close>

type_synonym ref = nat

record 'g world =
  heap :: "string list list"
  rng :: "'g"
  demo_txt :: "(string list \<times> string list) option"

text \<open>
  The module \<^verbatim>\<open>random\<close> of the standard library is not part of the repository. Its
  three functions that the module calls are parameters:
  \<^item> \<open>lib_seed a\<close> is the state of the generator after \<^verbatim>\<open>random.seed(a)\<close>;
  \<^item> \<open>lib_shuffle g n\<close> is the order in which \<^verbatim>\<open>random.shuffle\<close> leaves a list of \<open>n\<close>
    elements when the generator is in state \<open>g\<close> (position \<open>i\<close> of the result holds the
    element that was at the \<open>i\<close>-th index given), with the state afterwards;
  \<^item> \<open>lib_sample g n k\<close> is the list of the positions that \<^verbatim>\<open>random.sample\<close> picks for
    \<open>k\<close> items out of \<open>n\<close>, with the state afterwards.
\<close>

record 'g random_lib =
  lib_seed :: "int \<Rightarrow> 'g"
  lib_shuffle :: "'g \<Rightarrow> nat \<Rightarrow> nat list \<times> 'g"
  lib_sample :: "'g \<Rightarrow> nat \<Rightarrow> nat \<Rightarrow> nat list \<times> 'g"

text \<open>What the library documents of the two: \<^verbatim>\<open>shuffle\<close> reorders the list, \<^verbatim>\<open>sample\<close>
  picks \<open>k\<close> different positions of the population.\<close>

definition shuffle_ok :: "'g random_lib \<Rightarrow> bool" where
  "shuffle_ok L \<longleftrightarrow> (\<forall>g n. mset (fst (lib_shuffle L g n)) = mset [0..<n])"

definition sample_ok :: "'g random_lib \<Rightarrow> bool" where
  "sample_ok L \<longleftrightarrow>
     (\<forall>g n k. k \<le> n \<longrightarrow>
        length (fst (lib_sample L g n k)) = k \<and>
        distinct (fst (lib_sample L g n k)) \<and>
        set (fst (lib_sample L g n k)) \<subseteq> {..<n})"

text \<open>\<^verbatim>\<open>random.sample(population, k)\<close>: ValueError when \<open>k\<close> is negative or larger than
  the population, before the generator is used.\<close>

definition py_sample :: "'g random_lib \<Rightarrow> 'g \<Rightarrow> 'a list \<Rightarrow> int \<Rightarrow> (error + 'a list) \<times> 'g" where
  "py_sample L g population k =
     (if k < 0 \<or> int (length population) < k then (Inl ValueError, g)
      else (let (idx, g') = lib_sample L g (length population) (nat k)
            in (Inr (map (\<lambda>i. population ! i) idx), g')))"

subsection \<open>\<^verbatim>\<open>shuffle_reports\<close>\<close>

text \<open>\<^verbatim>\<open>copy.deepcopy\<close> of a list of strings is a new list object with the same elements
  (strings are immutable); \<^verbatim>\<open>random.shuffle\<close> reorders that new object in place.\<close>

definition shuffle_reports :: "'g random_lib \<Rightarrow> 'g world \<Rightarrow> ref \<Rightarrow> int \<Rightarrow> ref \<times> 'g world" where
  "shuffle_reports L s list_of_files random_seed =
     (let s1 = s\<lparr>rng := lib_seed L random_seed\<rparr>;
          shuffled_list = length (heap s1);
          s2 = s1\<lparr>heap := heap s1 @ [heap s1 ! list_of_files]\<rparr>;
          xs = heap s2 ! shuffled_list;
          (perm, g) = lib_shuffle L (rng s2) (length xs);
          s3 = s2\<lparr>heap := (heap s2)[shuffled_list := map (\<lambda>i. xs ! i) perm], rng := g\<rparr>
      in (shuffled_list, s3))"

subsection \<open>\<^verbatim>\<open>anonymize_reports\<close>\<close>

text \<open>The comprehension builds a new list object; \<^verbatim>\<open>range(1, len(shuffled_list) + 1)\<close>
  is \<open>[1..N]\<close>.\<close>

definition anonymize_reports :: "'g world \<Rightarrow> ref \<Rightarrow> string \<Rightarrow> ref \<times> 'g world" where
  "anonymize_reports s shuffled_list dataset_name =
     (let anonymized_report_list =
            map (\<lambda>i. ''A-'' @ dataset_name @ ''_'' @ py_str i)
              [1 .. int (length (heap s ! shuffled_list))]
      in (length (heap s), s\<lparr>heap := heap s @ [anonymized_report_list]\<rparr>))"

subsection \<open>\<^verbatim>\<open>repeat_reports\<close>\<close>

text \<open>
  An exception leaves the state as it is when it is raised: the generator seeded and,
  with two folders, demo.txt written. \<^verbatim>\<open>original_list.extend(subset_rep)\<close> writes to the
  caller's list object, and the reference returned is the one received.
\<close>

definition repeat_reports ::
    "'g random_lib \<Rightarrow> 'g world \<Rightarrow> ref \<Rightarrow> int \<Rightarrow> bool \<Rightarrow> (error + ref) \<times> 'g world" where
  "repeat_reports L s original_list number_of_subjects_to_repeat two_folders =
     (let day = 220830;
          time = 543417;
          s1 = s\<lparr>rng := lib_seed L (day + time)\<rparr>;
          xs = heap s1 ! original_list
      in if two_folders then
           (let list_condition1 = filter (contains ''condition1'') xs;
                s2 = s1\<lparr>demo_txt := Some (xs, list_condition1)\<rparr>
            in case py_sample L (rng s2) list_condition1 number_of_subjects_to_repeat of
                 (Inl e, g) \<Rightarrow> (Inl e, s2\<lparr>rng := g\<rparr>)
               | (Inr subset_rep_condition1, g) \<Rightarrow>
                   (let subset_rep_condition2 =
                          map (replace ''condition1'' ''condition2'') subset_rep_condition1;
                        subset_rep = subset_rep_condition1 @ subset_rep_condition2
                    in (Inr original_list,
                        s2\<lparr>heap := (heap s2)[original_list := xs @ subset_rep], rng := g\<rparr>)))
         else
           (case py_sample L (rng s1) xs number_of_subjects_to_repeat of
              (Inl e, g) \<Rightarrow> (Inl e, s1\<lparr>rng := g\<rparr>)
            | (Inr subset_rep, g) \<Rightarrow>
                (Inr original_list,
                 s1\<lparr>heap := (heap s1)[original_list := xs @ subset_rep], rng := g\<rparr>)))"

subsection \<open>A small instance of the library\<close>

text \<open>
  A generator whose state is a counter: seeding sets it to the absolute value of the
  seed, a shuffle rotates the list by the counter (modulo the length plus one), a
  sample takes the first \<open>k\<close> positions of the rotation. It satisfies \<open>shuffle_ok\<close> and
  \<open>sample_ok\<close>, and the statements below are run on it.
\<close>

definition counter_lib :: "nat random_lib" where
  "counter_lib =
     \<lparr>lib_seed = (\<lambda>a. nat \<bar>a\<bar>),
      lib_shuffle = (\<lambda>g n. (rotate (g mod Suc n) [0..<n], Suc g)),
      lib_sample = (\<lambda>g n k. (take k (rotate (g mod Suc n) [0..<n]), Suc g))\<rparr>"

text \<open>Two states that hold the list \<open>[a, b, c]\<close> at different references, with different
  states of the generator.\<close>

definition world0 :: "nat world" where
  "world0 = \<lparr>heap = [[''a'', ''b'', ''c''], [''/condition1/x'', ''/condition2/x'', ''/condition1/y'']],
             rng = 0, demo_txt = None\<rparr>"

definition world1 :: "nat world" where
  "world1 = \<lparr>heap = [[''x''], [''a'', ''b'', ''c'']], rng = 17, demo_txt = Some ([], [])\<rparr>"

text \<open>
  A table that knows three characters beyond ASCII, as the Unicode database has them:
  superscript two (U+00B2), alphanumeric but no decimal digit; e with acute (U+00E9), a
  letter; the Arabic-Indic digit three (U+0663), a decimal digit of value 3. And the
  limit on the digits of an integer string that CPython starts with.
\<close>

definition sample_unicode :: unicode where
  "sample_unicode =
     \<lparr>uni_alnum = (\<lambda>c. c = 0xB2 \<or> c = 0xE9 \<or> c = 0x663),
      uni_decimal = (\<lambda>c. if c = 0x663 then Some 3 else None)\<rparr>"

definition default_max_str_digits :: nat where
  "default_max_str_digits = 4300"

subsection \<open>Segments of a file name\<close>

text \<open>
  What it means for a file name to contain a segment such as \<^verbatim>\<open>sub-<id>_\<close>, said without
  the matcher: the tag, then a non-empty run of characters of the class, then an
  underscore, somewhere in the name.
\<close>

definition has_segment :: "unicode \<Rightarrow> string \<Rightarrow> cls \<Rightarrow> ustring \<Rightarrow> bool" where
  "has_segment U tag k file \<longleftrightarrow>
     (\<exists>pre w post. file = pre @ uni tag @ w @ uni ''_'' @ post \<and> w \<noteq> [] \<and>
        list_all (in_cls U k) w)"

section \<open>Properties\<close>

subsection \<open>The matcher\<close>

text \<open>A greedy repetition consumes characters of its class only and then the rest of the
  pattern matches; and it finds a match whenever some split of the input gives one.\<close>

lemma greedy_sound:
  "greedy p k acc s = Some (g, r) \<Longrightarrow>
     \<exists>t rest. s = t @ rest \<and> g = acc @ t \<and> list_all p t \<and> k rest = Some r"
proof (induction s arbitrary: acc)
  case Nil
  then show ?case by auto
next
  case (Cons c cs)
  show ?case
  proof (cases "p c \<and> greedy p k (acc @ [c]) cs \<noteq> None")
    case True
    then have "greedy p k (acc @ [c]) cs = Some (g, r)"
      using Cons.prems by auto
    from Cons.IH [OF this] obtain t rest
      where "cs = t @ rest" "g = (acc @ [c]) @ t" "list_all p t" "k rest = Some r" by blast
    with True have "c # cs = (c # t) @ rest \<and> g = acc @ (c # t) \<and> list_all p (c # t) \<and> k rest = Some r"
      by simp
    then show ?thesis by blast
  next
    case False
    then have "c # cs = [] @ (c # cs) \<and> g = acc @ [] \<and> list_all p [] \<and> k (c # cs) = Some r"
      using Cons.prems by (auto split: if_splits option.splits)
    then show ?thesis by blast
  qed
qed

lemma greedy_complete:
  "list_all p t \<Longrightarrow> k rest \<noteq> None \<Longrightarrow> greedy p k acc (t @ rest) \<noteq> None"
proof (induction t arbitrary: acc)
  case Nil
  then show ?case by (cases rest) (auto split: option.splits)
next
  case (Cons c t)
  then have "greedy p k (acc @ [c]) (t @ rest) \<noteq> None" by simp
  with Cons.prems show ?case by (auto split: option.splits)
qed

lemma length_uni [simp]: "length (uni s) = length s"
  by (simp add: uni_def)

lemma uni_underscore [simp]: "uni ''_'' = [95]"
  by (simp add: uni_def)

lemma match_here_lit:
  "match_here U (lit pre @ r) s =
     (if prefix (uni pre) s then match_here U r (drop (length pre) s) else None)"
  by (induction pre arbitrary: s) (auto simp: lit_def uni_def split: list.splits)

lemma match_here_group:
  assumes "match_here U (Group k # r) s = Some gs"
  shows "gs \<noteq> [] \<and> hd gs \<noteq> [] \<and> list_all (in_cls U k) (hd gs)"
proof (cases s)
  case Nil
  with assms show ?thesis by simp
next
  case (Cons d ds)
  with assms have d: "in_cls U k d" by (auto split: if_splits)
  with assms Cons obtain g gs' where g: "greedy (in_cls U k) (match_here U r) [d] ds = Some (g, gs')" "gs = g # gs'"
    by auto
  from greedy_sound [OF g(1)] obtain t where "g = [d] @ t" "list_all (in_cls U k) t" by blast
  with d g(2) show ?thesis by simp
qed

lemma re_search_Some:
  "re_search U p s = Some gs \<Longrightarrow> \<exists>pre t. s = pre @ t \<and> match_here U p t = Some gs"
proof (induction s)
  case Nil
  then show ?case by simp
next
  case (Cons c cs)
  show ?case
  proof (cases "match_here U p (c # cs)")
    case None
    with Cons.prems have "re_search U p cs = Some gs" by simp
    from Cons.IH [OF this] obtain pre t where "cs = pre @ t" "match_here U p t = Some gs" by blast
    then have "c # cs = (c # pre) @ t \<and> match_here U p t = Some gs" by simp
    then show ?thesis by blast
  next
    case (Some a)
    with Cons.prems have "c # cs = [] @ (c # cs) \<and> match_here U p (c # cs) = Some gs" by simp
    then show ?thesis by blast
  qed
qed

lemma re_search_complete:
  "match_here U p t \<noteq> None \<Longrightarrow> re_search U p (pre @ t) \<noteq> None"
proof (induction pre)
  case Nil
  then show ?case by (cases t) (auto split: option.splits)
next
  case (Cons c pre)
  then show ?case by (auto split: option.splits)
qed

lemma match_here_segment:
  "match_here U (lit tag @ [Group k, Ch (of_char CHR ''_'')]) t \<noteq> None \<longleftrightarrow>
     (\<exists>w post. t = uni tag @ w @ uni ''_'' @ post \<and> w \<noteq> [] \<and> list_all (in_cls U k) w)"
proof
  assume "match_here U (lit tag @ [Group k, Ch (of_char CHR ''_'')]) t \<noteq> None"
  then have pre: "prefix (uni tag) t" and m: "match_here U [Group k, Ch (of_char CHR ''_'')] (drop (length tag) t) \<noteq> None"
    by (auto simp: match_here_lit split: if_splits)
  from pre obtain u where t: "t = uni tag @ u" by (auto simp: prefix_def)
  with m obtain d ds where u: "u = d # ds" "in_cls U k d"
    and "greedy (in_cls U k) (match_here U [Ch (of_char CHR ''_'')]) [d] ds \<noteq> None"
    by (cases u) (auto split: if_splits)
  then obtain g gs where g: "greedy (in_cls U k) (match_here U [Ch (of_char CHR ''_'')]) [d] ds = Some (g, gs)" by auto
  show "\<exists>w post. t = uni tag @ w @ uni ''_'' @ post \<and> w \<noteq> [] \<and> list_all (in_cls U k) w"
  proof -
    from greedy_sound [OF g] obtain w' rest
      where ds: "ds = w' @ rest" and w': "list_all (in_cls U k) w'"
        and rest: "match_here U [Ch (of_char CHR ''_'')] rest = Some gs" by blast
    from rest obtain post where "rest = uni ''_'' @ post"
      by (cases rest) (auto split: if_splits)
    with t u ds w' have "t = uni tag @ (d # w') @ uni ''_'' @ post \<and> d # w' \<noteq> [] \<and> list_all (in_cls U k) (d # w')"
      by simp
    then show ?thesis by blast
  qed
next
  assume "\<exists>w post. t = uni tag @ w @ uni ''_'' @ post \<and> w \<noteq> [] \<and> list_all (in_cls U k) w"
  then obtain w post where t: "t = uni tag @ w @ uni ''_'' @ post" and w: "w \<noteq> []" "list_all (in_cls U k) w" by blast
  from w obtain d ds where d: "w = d # ds" by (cases w) auto
  have "match_here U [Ch (of_char CHR ''_'')] (uni ''_'' @ post) \<noteq> None" by simp
  with w d have "greedy (in_cls U k) (match_here U [Ch (of_char CHR ''_'')]) [d] (ds @ uni ''_'' @ post) \<noteq> None"
    by (intro greedy_complete) auto
  with w d show "match_here U (lit tag @ [Group k, Ch (of_char CHR ''_'')]) t \<noteq> None"
    by (auto simp: match_here_lit t)
qed

lemma re_search_segment:
  "re_search U (lit tag @ [Group k, Ch (of_char CHR ''_'')]) file \<noteq> None \<longleftrightarrow> has_segment U tag k file"
proof
  assume "re_search U (lit tag @ [Group k, Ch (of_char CHR ''_'')]) file \<noteq> None"
  then obtain gs where "re_search U (lit tag @ [Group k, Ch (of_char CHR ''_'')]) file = Some gs" by auto
  from re_search_Some [OF this] obtain pre t
    where f: "file = pre @ t" and "match_here U (lit tag @ [Group k, Ch (of_char CHR ''_'')]) t \<noteq> None" by auto
  then obtain w post where "t = uni tag @ w @ uni ''_'' @ post" "w \<noteq> []" "list_all (in_cls U k) w"
    unfolding match_here_segment by blast
  with f show "has_segment U tag k file" unfolding has_segment_def by blast
next
  assume "has_segment U tag k file"
  then obtain pre w post
    where f: "file = pre @ (uni tag @ w @ uni ''_'' @ post)" and w: "w \<noteq> []" "list_all (in_cls U k) w"
    unfolding has_segment_def by auto
  from w have "match_here U (lit tag @ [Group k, Ch (of_char CHR ''_'')]) (uni tag @ w @ uni ''_'' @ post) \<noteq> None"
    unfolding match_here_segment by blast
  then show "re_search U (lit tag @ [Group k, Ch (of_char CHR ''_'')]) file \<noteq> None"
    unfolding f by (rule re_search_complete)
qed

lemma re_search_group:
  assumes "re_search U (lit tag @ Group k # r) file = Some gs"
  shows "hd gs \<noteq> [] \<and> list_all (in_cls U k) (hd gs)"
proof -
  from re_search_Some [OF assms] obtain pre t
    where "match_here U (lit tag @ Group k # r) t = Some gs" by blast
  then have "match_here U (Group k # r) (drop (length tag) t) = Some gs"
    by (simp add: match_here_lit split: if_splits)
  from match_here_group [OF this] show ?thesis by simp
qed

lemma decimal_underscore: "decimal U 95 = None"
  by (simp add: decimal_def ascii_digit_def)

lemma int_literal_digits:
  "s \<noteq> [] \<Longrightarrow> list_all (in_cls U Digit) s \<Longrightarrow> int_literal U s"
  by (induction U s rule: int_literal.induct) (auto simp: decimal_underscore)

lemma py_int_digits:
  assumes "s \<noteq> []" and "list_all (in_cls U Digit) s"
  shows "if digits_accepted lim s then \<exists>n. py_int U lim s = Inr n
         else py_int U lim s = Inl ValueError"
  using int_literal_digits [OF assms] by (simp add: py_int_def)

lemma py_int_error: "py_int U lim s = Inl e \<Longrightarrow> e = ValueError"
  by (simp add: py_int_def split: if_splits)

lemma run_id_error: "run_id U lim file = Inl e \<Longrightarrow> e = ValueError"
  by (auto simp: run_id_def split: option.splits dest: py_int_error)

lemma session_class_error: "session_class U lim file = Inl e \<Longrightarrow> e = ValueError"
  by (auto simp: session_class_def split: option.splits sum.splits dest: py_int_error)

lemma subject_id_segment:
  "(\<exists>sid. subject_id U file = Inr sid) \<longleftrightarrow> has_segment U ''sub-'' Word file"
  using re_search_segment [of U "''sub-''" Word "file"]
  by (auto simp: subject_id_def sub_pattern_def split: option.splits)

lemma subject_id_error:
  "subject_id U file = Inl e \<Longrightarrow> e = PatternNotFound \<and> \<not> has_segment U ''sub-'' Word file"
  using re_search_segment [of U "''sub-''" Word "file"]
  by (auto simp: subject_id_def sub_pattern_def split: option.splits)

subsection \<open>The key of a report\<close>

text \<open>
  C4. \<open>define_order\<close> raises the pattern-not-found error exactly on the file names that
  contain no segment \<^verbatim>\<open>sub-<id>_\<close>: on such a name it returns the error and no key, and
  on a name with the segment it never returns this error (it returns a key, or the
  ValueError of \<^verbatim>\<open>int\<close>). This holds for every name, ASCII or not, whatever the Unicode
  table and the digit limit are.
\<close>

theorem define_order_pattern_not_found:
  "define_order U lim file = Inl PatternNotFound \<longleftrightarrow> \<not> has_segment U ''sub-'' Word file"
proof (cases "subject_id U file")
  case (Inl e)
  with subject_id_error [OF Inl] show ?thesis by (simp add: define_order_def)
next
  case (Inr sid)
  then have seg: "has_segment U ''sub-'' Word file"
    using subject_id_segment by blast
  have "define_order U lim file \<noteq> Inl PatternNotFound"
    using run_id_error [of U lim "file"] session_class_error [of U lim "file"]
    by (auto simp: define_order_def Inr split: sum.splits)
  with seg show ?thesis by simp
qed

theorem define_order_pattern_not_found_witness:
  "\<not> has_segment sample_unicode ''sub-'' Word (uni ''ses-02_T1w.html'') \<and>
   define_order sample_unicode default_max_str_digits (uni ''ses-02_T1w.html'')
     = Inl PatternNotFound \<and>
   has_segment sample_unicode ''sub-'' Word (uni ''sub-01_run-x_T1w.html'') \<and>
   define_order sample_unicode default_max_str_digits (uni ''sub-01_run-x_T1w.html'')
     = Inl ValueError \<and>
   has_segment sample_unicode ''sub-'' Word (uni ''sub-Jos'' @ [0xE9] @ uni ''_T1w.html'') \<and>
   define_order sample_unicode default_max_str_digits (uni ''sub-Jos'' @ [0xE9] @ uni ''_T1w.html'')
     = Inr (uni ''Jos'' @ [0xE9], 0, 4, 0, 0)"
proof -
  have a: "define_order sample_unicode default_max_str_digits (uni ''ses-02_T1w.html'')
      = Inl PatternNotFound" by code_simp
  have b: "define_order sample_unicode default_max_str_digits (uni ''sub-01_run-x_T1w.html'')
      = Inl ValueError" by code_simp
  have c: "define_order sample_unicode default_max_str_digits
      (uni ''sub-Jos'' @ [0xE9] @ uni ''_T1w.html'') = Inr (uni ''Jos'' @ [0xE9], 0, 4, 0, 0)"
    by code_simp
  show ?thesis
    using define_order_pattern_not_found
        [of sample_unicode default_max_str_digits "uni ''ses-02_T1w.html''"]
      define_order_pattern_not_found
        [of sample_unicode default_max_str_digits "uni ''sub-01_run-x_T1w.html''"]
      define_order_pattern_not_found
        [of sample_unicode default_max_str_digits "uni ''sub-Jos'' @ [0xE9] @ uni ''_T1w.html''"]
    by (simp only: a b c) simp
qed

text \<open>
  C3, as stated, fails: the name \<^verbatim>\<open>sub-01_run-x_ses-excl1_T1w.html\<close> contains the segment
  \<^verbatim>\<open>sub-01_\<close> and matches \<^verbatim>\<open>ses-excl(\d+)_\<close>, but \<^verbatim>\<open>int("x")\<close> on the run id raises
  ValueError before the session is looked at, and no key is returned.
\<close>

theorem session_cascade_counterexample:
  "re_search sample_unicode sub_pattern (uni ''sub-01_run-x_ses-excl1_T1w.html'')
     = Some [uni ''01''] \<and>
   re_search sample_unicode excl_pattern (uni ''sub-01_run-x_ses-excl1_T1w.html'')
     = Some [uni ''1''] \<and>
   define_order sample_unicode default_max_str_digits (uni ''sub-01_run-x_ses-excl1_T1w.html'')
     = Inl ValueError"
  by code_simp

text \<open>
  C3, amended. For every file name that contains a segment \<^verbatim>\<open>sub-<id>_\<close> and whose run
  id is accepted (no \<^verbatim>\<open>run-<x>_\<close> segment, or one whose capture \<^verbatim>\<open>int\<close> accepts),
  \<open>define_order\<close> classifies the session by the cascade, the first match winning:
  \<^verbatim>\<open>ses-excl(\d+)_\<close> gives priority 1 and the number captured, otherwise
  \<^verbatim>\<open>ses-pilot(\d+)_\<close> gives priority 2 and its number, otherwise \<^verbatim>\<open>ses-(\d+)_\<close> gives
  priority 3 and its number, otherwise the priority is 4 and the number 0. In the first
  three cases the key is returned when the digits captured are within the
  interpreter's limit on the digits of an integer string (at most 640 digits, or at
  most the limit set, or no limit set), and ValueError is raised when they are not; in
  the last case the key is returned.
\<close>

theorem define_order_session_cascade:
  assumes "has_segment U ''sub-'' Word file" and "run_id U lim file = Inr rid"
  shows "\<exists>sid. subject_id U file = Inr sid \<and>
    (\<forall>gs. re_search U excl_pattern file = Some gs \<longrightarrow>
       (if digits_accepted lim (hd gs)
        then \<exists>n. py_int U lim (hd gs) = Inr n \<and>
               define_order U lim file = Inr (sid, modality_priority U file, 1, n, rid)
        else define_order U lim file = Inl ValueError)) \<and>
    (\<forall>gs. re_search U excl_pattern file = None \<and> re_search U pilot_pattern file = Some gs \<longrightarrow>
       (if digits_accepted lim (hd gs)
        then \<exists>n. py_int U lim (hd gs) = Inr n \<and>
               define_order U lim file = Inr (sid, modality_priority U file, 2, n, rid)
        else define_order U lim file = Inl ValueError)) \<and>
    (\<forall>gs. re_search U excl_pattern file = None \<and> re_search U pilot_pattern file = None \<and>
          re_search U session_pattern file = Some gs \<longrightarrow>
       (if digits_accepted lim (hd gs)
        then \<exists>n. py_int U lim (hd gs) = Inr n \<and>
               define_order U lim file = Inr (sid, modality_priority U file, 3, n, rid)
        else define_order U lim file = Inl ValueError)) \<and>
    (re_search U excl_pattern file = None \<and> re_search U pilot_pattern file = None \<and>
       re_search U session_pattern file = None \<longrightarrow>
       define_order U lim file = Inr (sid, modality_priority U file, 4, 0, rid))"
proof -
  from assms(1) obtain sid where sid: "subject_id U file = Inr sid"
    using subject_id_segment by blast
  have d: "if digits_accepted lim (hd gs) then \<exists>n. py_int U lim (hd gs) = Inr n
           else py_int U lim (hd gs) = Inl ValueError"
    if "re_search U (lit tag @ [Group Digit, Ch (of_char CHR ''_'')]) file = Some gs" for tag gs
    using re_search_group [OF that] py_int_digits by blast
  have c1: "if digits_accepted lim (hd gs)
        then \<exists>n. py_int U lim (hd gs) = Inr n \<and>
               define_order U lim file = Inr (sid, modality_priority U file, 1, n, rid)
        else define_order U lim file = Inl ValueError"
    if "re_search U excl_pattern file = Some gs" for gs
    using that d [of "''ses-excl''" gs]
    by (auto simp: define_order_def session_class_def sid assms(2) excl_pattern_def
        split: if_splits)
  have c2: "if digits_accepted lim (hd gs)
        then \<exists>n. py_int U lim (hd gs) = Inr n \<and>
               define_order U lim file = Inr (sid, modality_priority U file, 2, n, rid)
        else define_order U lim file = Inl ValueError"
    if "re_search U excl_pattern file = None \<and> re_search U pilot_pattern file = Some gs" for gs
    using that d [of "''ses-pilot''" gs]
    by (auto simp: define_order_def session_class_def sid assms(2) pilot_pattern_def
        split: if_splits)
  have c3: "if digits_accepted lim (hd gs)
        then \<exists>n. py_int U lim (hd gs) = Inr n \<and>
               define_order U lim file = Inr (sid, modality_priority U file, 3, n, rid)
        else define_order U lim file = Inl ValueError"
    if "re_search U excl_pattern file = None \<and> re_search U pilot_pattern file = None \<and>
       re_search U session_pattern file = Some gs" for gs
    using that d [of "''ses-''" gs]
    by (auto simp: define_order_def session_class_def sid assms(2) session_pattern_def
        split: if_splits)
  have c4: "define_order U lim file = Inr (sid, modality_priority U file, 4, 0, rid)"
    if "re_search U excl_pattern file = None \<and> re_search U pilot_pattern file = None \<and>
       re_search U session_pattern file = None"
    using that by (simp add: define_order_def session_class_def sid assms(2))
  show ?thesis
    by (intro exI [of _ sid] conjI allI impI) (rule sid c1 c2 c3 c4; assumption)+
qed

theorem define_order_session_cascade_witness:
  "has_segment sample_unicode ''sub-'' Word (uni ''sub-01_ses-pilot03_run-2_T1w.html'') \<and>
   run_id sample_unicode default_max_str_digits (uni ''sub-01_ses-pilot03_run-2_T1w.html'')
     = Inr 2 \<and>
   re_search sample_unicode excl_pattern (uni ''sub-01_ses-pilot03_run-2_T1w.html'') = None \<and>
   re_search sample_unicode pilot_pattern (uni ''sub-01_ses-pilot03_run-2_T1w.html'')
     = Some [uni ''03''] \<and>
   digits_accepted default_max_str_digits (uni ''03'') \<and>
   define_order sample_unicode default_max_str_digits (uni ''sub-01_ses-pilot03_run-2_T1w.html'')
     = Inr (uni ''01'', 0, 2, 3, 2)"
proof -
  let ?f = "uni ''sub-01_ses-pilot03_run-2_T1w.html''"
  let ?U = sample_unicode
  let ?lim = default_max_str_digits
  have "re_search ?U (lit ''sub-'' @ [Group Word, Ch (of_char CHR ''_'')]) ?f \<noteq> None"
    by code_simp
  then have h1: "has_segment ?U ''sub-'' Word ?f" by (simp only: re_search_segment)
  have h2: "run_id ?U ?lim ?f = Inr 2" by code_simp
  have e: "re_search ?U excl_pattern ?f = None" by code_simp
  have p: "re_search ?U pilot_pattern ?f = Some [uni ''03'']" by code_simp
  have a: "digits_accepted ?lim (uni ''03'')" by code_simp
  have s: "subject_id ?U ?f = Inr (uni ''01'')" by code_simp
  have m: "modality_priority ?U ?f = 0" by code_simp
  have i: "py_int ?U ?lim (uni ''03'') = Inr 3" by code_simp
  from define_order_session_cascade [OF h1 h2]
  obtain sid where sid: "subject_id ?U ?f = Inr sid"
    and c: "\<forall>gs. re_search ?U excl_pattern ?f = None \<and> re_search ?U pilot_pattern ?f = Some gs \<longrightarrow>
       (if digits_accepted ?lim (hd gs)
        then \<exists>n. py_int ?U ?lim (hd gs) = Inr n \<and>
               define_order ?U ?lim ?f = Inr (sid, modality_priority ?U ?f, 2, n, 2)
        else define_order ?U ?lim ?f = Inl ValueError)"
    by blast
  from c e p have "if digits_accepted ?lim (hd [uni ''03''])
        then \<exists>n. py_int ?U ?lim (hd [uni ''03'']) = Inr n \<and>
               define_order ?U ?lim ?f = Inr (sid, modality_priority ?U ?f, 2, n, 2)
        else define_order ?U ?lim ?f = Inl ValueError"
    by blast
  with a obtain n where n: "py_int ?U ?lim (uni ''03'') = Inr n"
    and k: "define_order ?U ?lim ?f = Inr (sid, modality_priority ?U ?f, 2, n, 2)"
    by (auto simp only: list.sel if_True)
  from n i have "n = 3" by simp
  moreover from sid s have "sid = uni ''01''" by (simp only: sum.inject)
  ultimately have "define_order ?U ?lim ?f = Inr (uni ''01'', 0, 2, 3, 2)"
    using k by (simp only: m)
  with h1 h2 e p a show ?thesis by (simp only: simp_thms)
qed

subsection \<open>The sorted list\<close>

text \<open>
  C1. Sorting the three reports \<^verbatim>\<open>sub-01_ses-02_T1w.html\<close>, \<^verbatim>\<open>sub-01_ses-excl01_T1w.html\<close>
  and \<^verbatim>\<open>sub-01_ses-pilot03_T1w.html\<close> with \<open>define_order\<close> as the key puts the
  exclusion session first, the pilot session second and the numbered session last.
\<close>

theorem sort_example_excl_pilot_numbered:
  "list_sort (define_order U lim)
     (map uni [''sub-01_ses-02_T1w.html'', ''sub-01_ses-excl01_T1w.html'',
               ''sub-01_ses-pilot03_T1w.html''])
   = Inr (map uni [''sub-01_ses-excl01_T1w.html'', ''sub-01_ses-pilot03_T1w.html'',
                   ''sub-01_ses-02_T1w.html''])"
  by code_simp


subsection \<open>The small instance of the library keeps the library's promises\<close>

lemma mset_rotate1_eq: "mset (rotate1 xs) = mset xs"
  by (cases xs) simp_all

lemma mset_rotate_eq: "mset (rotate n xs) = mset xs"
  by (induction n) (simp_all add: mset_rotate1_eq)

lemma counter_lib_shuffle_ok: "shuffle_ok counter_lib"
  by (simp add: shuffle_ok_def counter_lib_def mset_rotate_eq del: mset_upt)

lemma counter_lib_sample_ok: "sample_ok counter_lib"
  by (auto simp: sample_ok_def counter_lib_def dest: in_set_takeD)

lemma world0_heap:
  "heap world0 = [[''a'', ''b'', ''c''], [''/condition1/x'', ''/condition2/x'', ''/condition1/y'']]"
  by (simp add: world0_def)

lemma shuffle_world0:
  "shuffle_reports counter_lib world0 0 5 =
     (2, \<lparr>heap = [[''a'', ''b'', ''c''],
                  [''/condition1/x'', ''/condition2/x'', ''/condition1/y''],
                  [''b'', ''c'', ''a'']],
          rng = 6, demo_txt = None\<rparr>)"
  by (simp add: shuffle_reports_def counter_lib_def world0_def Let_def)

lemma shuffle_world1:
  "shuffle_reports counter_lib world1 1 5 =
     (2, \<lparr>heap = [[''x''], [''a'', ''b'', ''c''], [''b'', ''c'', ''a'']],
          rng = 6, demo_txt = Some ([], [])\<rparr>)"
  by (simp add: shuffle_reports_def counter_lib_def world1_def Let_def)

subsection \<open>Shuffling\<close>

lemma shuffle_reports_eq:
  "shuffle_reports L s l seed =
     (length (heap s),
      s\<lparr>heap := heap s @
           [map (\<lambda>i. heap s ! l ! i)
              (fst (lib_shuffle L (lib_seed L seed) (length (heap s ! l))))],
        rng := snd (lib_shuffle L (lib_seed L seed) (length (heap s ! l)))\<rparr>)"
  by (simp add: shuffle_reports_def Let_def split: prod.splits)

lemma mset_map_nth_perm:
  assumes "mset perm = mset [0..<length xs]"
  shows "mset (map (\<lambda>i. xs ! i) perm) = mset xs"
proof -
  have "mset (map (\<lambda>i. xs ! i) perm) = image_mset (\<lambda>i. xs ! i) (mset perm)" by simp
  also have "\<dots> = mset (map (\<lambda>i. xs ! i) [0..<length xs])" by (simp add: assms)
  also have "\<dots> = mset xs" by (simp add: map_nth)
  finally show ?thesis .
qed

text \<open>
  C5. The list that \<open>shuffle_reports\<close> returns is determined by the seed and the content
  of the list it is given: two calls with the same seed on lists of the same content,
  in any two states (whatever earlier calls left in the generator, and wherever the
  lists live), return lists of the same content.
\<close>

theorem shuffle_reports_deterministic:
  assumes "heap s1 ! l1 = heap s2 ! l2"
  shows "heap (snd (shuffle_reports L s1 l1 seed)) ! fst (shuffle_reports L s1 l1 seed) =
         heap (snd (shuffle_reports L s2 l2 seed)) ! fst (shuffle_reports L s2 l2 seed)"
  by (simp add: shuffle_reports_eq assms)

theorem shuffle_reports_deterministic_witness:
  "heap world0 ! 0 = heap world1 ! 1 \<and>
   rng world0 \<noteq> rng world1 \<and>
   heap (snd (shuffle_reports counter_lib world0 0 5)) ! fst (shuffle_reports counter_lib world0 0 5) =
   heap (snd (shuffle_reports counter_lib world1 1 5)) ! fst (shuffle_reports counter_lib world1 1 5)"
proof -
  have h: "heap world0 ! 0 = heap world1 ! 1" by (simp add: world0_def world1_def)
  have r: "rng world0 \<noteq> rng world1" by (simp add: world0_def world1_def)
  from shuffle_reports_deterministic [OF h, of counter_lib 5] h r show ?thesis by (simp only: simp_thms)
qed

text \<open>
  C6. \<open>shuffle_reports\<close> leaves the list it is given as it was, as it does every list
  object that existed before the call; what it returns is a new list object, and a
  permutation of the input: the two have the same elements with the same
  multiplicities.
\<close>

theorem shuffle_reports_copy:
  assumes "shuffle_ok L" and "list_of_files < length (heap s)"
    and "shuffle_reports L s list_of_files seed = (shuffled_list, s')"
  shows "heap s' ! list_of_files = heap s ! list_of_files \<and>
         mset (heap s' ! shuffled_list) = mset (heap s ! list_of_files) \<and>
         shuffled_list \<noteq> list_of_files \<and>
         take (length (heap s)) (heap s') = heap s"
proof -
  from assms(1) have "mset (fst (lib_shuffle L (lib_seed L seed) (length (heap s ! list_of_files))))
      = mset [0..<length (heap s ! list_of_files)]"
    by (simp add: shuffle_ok_def)
  from mset_map_nth_perm [OF this] assms(2,3) show ?thesis
    by (auto simp: shuffle_reports_eq nth_append)
qed

theorem shuffle_reports_copy_witness:
  "shuffle_ok counter_lib \<and> 0 < length (heap world0) \<and>
   fst (shuffle_reports counter_lib world0 0 5) = 2 \<and>
   heap (snd (shuffle_reports counter_lib world0 0 5)) ! 0 = [''a'', ''b'', ''c''] \<and>
   heap (snd (shuffle_reports counter_lib world0 0 5)) ! 2 = [''b'', ''c'', ''a''] \<and>
   mset (heap (snd (shuffle_reports counter_lib world0 0 5)) ! 2) = mset (heap world0 ! 0)"
proof -
  have v: "0 < length (heap world0)" by (simp add: world0_heap)
  have e: "shuffle_reports counter_lib world0 0 5 =
      (fst (shuffle_reports counter_lib world0 0 5), snd (shuffle_reports counter_lib world0 0 5))"
    by simp
  from shuffle_reports_copy [OF counter_lib_shuffle_ok v e] counter_lib_shuffle_ok v
  show ?thesis by (simp add: shuffle_world0 world0_heap)
qed

subsection \<open>Anonymising\<close>

lemma nth_upto_int: "k < nat (j - i + 1) \<Longrightarrow> [i..j] ! k = i + int k"
proof (induction k arbitrary: i)
  case 0
  then show ?case by (simp add: upto.simps)
next
  case (Suc k)
  then have "i \<le> j" by simp
  then have "[i..j] = i # [i + 1..j]" by (simp add: upto.simps)
  with Suc.IH [of "i + 1"] Suc.prems show ?case by simp
qed

text \<open>
  C7. For a list of \<open>N\<close> reports \<open>anonymize_reports\<close> returns a new list of \<open>N\<close> labels
  whose \<open>i\<close>-th element, counted from 1, is \<^verbatim>\<open>"A-" + dataset_name + "_" + str(i)\<close>; the
  list it is given is not modified. On \<^verbatim>\<open>["a", "b"]\<close> and \<^verbatim>\<open>"DS1"\<close> the labels are
  \<^verbatim>\<open>["A-DS1_1", "A-DS1_2"]\<close>, which the instance after the theorem shows.
\<close>

theorem anonymize_reports_labels:
  assumes "shuffled_list < length (heap s)"
    and "anonymize_reports s shuffled_list dataset_name = (labels, s')"
  shows "length (heap s' ! labels) = length (heap s ! shuffled_list) \<and>
         (\<forall>i. 1 \<le> i \<and> i \<le> length (heap s ! shuffled_list) \<longrightarrow>
            heap s' ! labels ! (i - 1) = ''A-'' @ dataset_name @ ''_'' @ py_str (int i)) \<and>
         heap s' ! shuffled_list = heap s ! shuffled_list \<and>
         labels \<noteq> shuffled_list"
proof -
  let ?N = "length (heap s ! shuffled_list)"
  from assms(2) have l: "labels = length (heap s)"
    and s': "heap s' = heap s @ [map (\<lambda>i. ''A-'' @ dataset_name @ ''_'' @ py_str i) [1 .. int ?N]]"
    by (auto simp: anonymize_reports_def Let_def)
  have "heap s' ! labels ! (i - 1) = ''A-'' @ dataset_name @ ''_'' @ py_str (int i)"
    if "1 \<le> i \<and> i \<le> ?N" for i
  proof -
    from that have lt: "i - 1 < ?N" by arith
    then have "i - 1 < nat (int ?N - 1 + 1)" by simp
    from nth_upto_int [OF this] that have "[1 .. int ?N] ! (i - 1) = int i" by simp
    with lt show ?thesis by (simp add: l s')
  qed
  with assms(1) show ?thesis by (simp add: l s' nth_append)
qed

theorem anonymize_reports_labels_witness:
  "0 < length (heap (world0\<lparr>heap := [[''a'', ''b'']]\<rparr>)) \<and>
   fst (anonymize_reports (world0\<lparr>heap := [[''a'', ''b'']]\<rparr>) 0 ''DS1'') = 1 \<and>
   heap (snd (anonymize_reports (world0\<lparr>heap := [[''a'', ''b'']]\<rparr>) 0 ''DS1'')) ! 1
     = [''A-DS1_1'', ''A-DS1_2''] \<and>
   heap (snd (anonymize_reports (world0\<lparr>heap := [[''a'', ''b'']]\<rparr>) 0 ''DS1'')) ! 0 = [''a'', ''b'']"
proof -
  let ?s = "world0\<lparr>heap := [[''a'', ''b'']]\<rparr>"
  have v: "0 < length (heap ?s)" by simp
  have u: "[1 .. 2] = [1, 2::int]" by (simp add: upto.simps)
  have p: "py_str 1 = ''1''" "py_str 2 = ''2''" by code_simp+
  have a: "anonymize_reports ?s 0 ''DS1'' = (1, ?s\<lparr>heap := [[''a'', ''b''], [''A-DS1_1'', ''A-DS1_2'']]\<rparr>)"
    by (simp add: anonymize_reports_def u p)
  from anonymize_reports_labels [OF v a] v show ?thesis by (simp add: a)
qed

subsection \<open>Repeating\<close>

lemma py_sample_ok:
  assumes "sample_ok L" and "0 \<le> k" and "k \<le> int (length pop)"
  shows "\<exists>picks g'. py_sample L g pop k = (Inr picks, g') \<and> length picks = nat k \<and>
           set picks \<subseteq> set pop"
proof -
  let ?r = "lib_sample L g (length pop) (nat k)"
  from assms have "nat k \<le> length pop" by simp
  with assms(1) have len: "length (fst ?r) = nat k" and sub: "set (fst ?r) \<subseteq> {..<length pop}"
    unfolding sample_ok_def by blast+
  from sub have "set (map (\<lambda>i. pop ! i) (fst ?r)) \<subseteq> set pop" by auto
  with len assms(2,3) show ?thesis
    by (cases ?r) (simp add: py_sample_def)
qed

lemma py_sample_error:
  "k < 0 \<or> int (length pop) < k \<Longrightarrow> py_sample L g pop k = (Inl ValueError, g)"
  by (simp add: py_sample_def)

lemma repeat_single_effect:
  assumes "sample_ok L" and "0 \<le> k" and "k \<le> int (length (heap s ! l))"
  shows "\<exists>picks g'. repeat_reports L s l k False =
           (Inr l, s\<lparr>heap := (heap s)[l := heap s ! l @ picks], rng := g'\<rparr>) \<and>
           length picks = nat k \<and> set picks \<subseteq> set (heap s ! l)"
proof -
  from py_sample_ok [OF assms, of "lib_seed L (220830 + 543417)"]
  obtain picks g' where "py_sample L (lib_seed L (220830 + 543417)) (heap s ! l) k = (Inr picks, g')"
    "length picks = nat k" "set picks \<subseteq> set (heap s ! l)" by blast
  then show ?thesis
    by (intro exI [of _ picks] exI [of _ g']) (simp add: repeat_reports_def Let_def)
qed

lemma repeat_two_effect:
  assumes "sample_ok L" and "0 \<le> k"
    and "k \<le> int (length (filter (contains ''condition1'') (heap s ! l)))"
  shows "\<exists>picks g'. repeat_reports L s l k True =
           (Inr l,
            s\<lparr>heap := (heap s)[l := heap s ! l @ picks @ map (replace ''condition1'' ''condition2'') picks],
              rng := g',
              demo_txt := Some (heap s ! l, filter (contains ''condition1'') (heap s ! l))\<rparr>) \<and>
           length picks = nat k \<and> set picks \<subseteq> set (filter (contains ''condition1'') (heap s ! l))"
proof -
  from py_sample_ok [OF assms, of "lib_seed L (220830 + 543417)"]
  obtain picks g' where "py_sample L (lib_seed L (220830 + 543417))
       (filter (contains ''condition1'') (heap s ! l)) k = (Inr picks, g')"
    "length picks = nat k" "set picks \<subseteq> set (filter (contains ''condition1'') (heap s ! l))" by blast
  then show ?thesis
    by (intro exI [of _ picks] exI [of _ g']) (simp add: repeat_reports_def Let_def)
qed

text \<open>
  C8. With one folder, for every list and every \<open>k\<close> with \<open>0 \<le> k \<le> len(lst)\<close>,
  \<open>repeat_reports\<close> returns the list with \<open>len(lst) + k\<close> elements: the first \<open>len(lst)\<close>
  are the elements of the list in their order, and each of the last \<open>k\<close> is an element
  of the list.
\<close>

theorem repeat_reports_single_folder:
  assumes "sample_ok L" and "original_list < length (heap s)"
    and "0 \<le> k" and "k \<le> int (length (heap s ! original_list))"
  shows "\<exists>s'. repeat_reports L s original_list k False = (Inr original_list, s') \<and>
     length (heap s' ! original_list) = length (heap s ! original_list) + nat k \<and>
     take (length (heap s ! original_list)) (heap s' ! original_list) = heap s ! original_list \<and>
     set (drop (length (heap s ! original_list)) (heap s' ! original_list))
       \<subseteq> set (heap s ! original_list)"
proof -
  from repeat_single_effect [OF assms(1,3,4)] obtain picks g'
    where r: "repeat_reports L s original_list k False =
        (Inr original_list,
         s\<lparr>heap := (heap s)[original_list := heap s ! original_list @ picks], rng := g'\<rparr>)"
      and p: "length picks = nat k" "set picks \<subseteq> set (heap s ! original_list)"
    by blast
  from p assms(2) show ?thesis by (simp add: r)
qed

theorem repeat_reports_single_folder_witness:
  "sample_ok counter_lib \<and> 0 < length (heap world0) \<and> (0::int) \<le> 2 \<and>
   2 \<le> int (length (heap world0 ! 0)) \<and>
   fst (repeat_reports counter_lib world0 0 2 False) = Inr 0 \<and>
   heap (snd (repeat_reports counter_lib world0 0 2 False)) ! 0 = [''a'', ''b'', ''c'', ''a'', ''b'']"
proof -
  have v: "0 < length (heap world0)" by (simp add: world0_heap)
  have k0: "(0::int) \<le> 2" by simp
  have k1: "2 \<le> int (length (heap world0 ! 0))" by (simp add: world0_heap)
  have e: "repeat_reports counter_lib world0 0 2 False =
     (Inr 0, \<lparr>heap = [[''a'', ''b'', ''c'', ''a'', ''b''],
                      [''/condition1/x'', ''/condition2/x'', ''/condition1/y'']],
              rng = 764248, demo_txt = None\<rparr>)"
    by (simp add: repeat_reports_def counter_lib_def world0_def py_sample_def Let_def)
  from repeat_reports_single_folder [OF counter_lib_sample_ok v k0 k1] v k1 counter_lib_sample_ok
  show ?thesis by (simp add: e)
qed

text \<open>
  C9. With two folders, for every list and every number \<open>k\<close> of reports to repeat that
  does not exceed the number of elements containing \<^verbatim>\<open>condition1\<close>, \<open>repeat_reports\<close>
  returns the list followed by \<open>k\<close> picks and by \<open>k\<close> more entries, so its length is the
  original length plus \<open>2k\<close>; the picks are elements of the list that contain
  \<^verbatim>\<open>condition1\<close>, and the \<open>i\<close>-th of the entries after them is the \<open>i\<close>-th pick with
  \<^verbatim>\<open>condition1\<close> replaced by \<^verbatim>\<open>condition2\<close>.
\<close>

theorem repeat_reports_two_folders:
  fixes k :: nat
  assumes "sample_ok L" and "original_list < length (heap s)"
    and "k \<le> length (filter (contains ''condition1'') (heap s ! original_list))"
  shows "\<exists>s' picks. repeat_reports L s original_list (int k) True = (Inr original_list, s') \<and>
     heap s' ! original_list =
       heap s ! original_list @ picks @ map (replace ''condition1'' ''condition2'') picks \<and>
     length picks = k \<and>
     set picks \<subseteq> set (filter (contains ''condition1'') (heap s ! original_list)) \<and>
     length (heap s' ! original_list) = length (heap s ! original_list) + 2 * k"
proof -
  have k0: "0 \<le> int k" by simp
  from assms(3)
  have k1: "int k \<le> int (length (filter (contains ''condition1'') (heap s ! original_list)))"
    by simp
  from repeat_two_effect [OF assms(1) k0 k1] obtain picks g'
    where r: "repeat_reports L s original_list (int k) True =
        (Inr original_list,
         s\<lparr>heap := (heap s)[original_list := heap s ! original_list @ picks @
               map (replace ''condition1'' ''condition2'') picks],
           rng := g',
           demo_txt := Some (heap s ! original_list,
             filter (contains ''condition1'') (heap s ! original_list))\<rparr>)"
      and p: "length picks = nat (int k)"
        "set picks \<subseteq> set (filter (contains ''condition1'') (heap s ! original_list))"
    by blast
  from p assms(2) show ?thesis
    by (intro exI [of _ "snd (repeat_reports L s original_list (int k) True)"] exI [of _ picks])
      (simp add: r)
qed

theorem repeat_reports_two_folders_witness:
  "sample_ok counter_lib \<and> 1 < length (heap world0) \<and>
   (2::nat) \<le> length (filter (contains ''condition1'') (heap world0 ! 1)) \<and>
   fst (repeat_reports counter_lib world0 1 (int 2) True) = Inr 1 \<and>
   heap (snd (repeat_reports counter_lib world0 1 (int 2) True)) ! 1 =
     [''/condition1/x'', ''/condition2/x'', ''/condition1/y'',
      ''/condition1/x'', ''/condition1/y'', ''/condition2/x'', ''/condition2/y'']"
proof -
  have v: "1 < length (heap world0)" by (simp add: world0_heap)
  have k1: "(2::nat) \<le> length (filter (contains ''condition1'') (heap world0 ! 1))"
    by (simp add: world0_heap)
  have e: "repeat_reports counter_lib world0 1 (int 2) True =
     (Inr 1, \<lparr>heap = [[''a'', ''b'', ''c''],
                      [''/condition1/x'', ''/condition2/x'', ''/condition1/y'',
                       ''/condition1/x'', ''/condition1/y'', ''/condition2/x'', ''/condition2/y'']],
              rng = 764248,
              demo_txt = Some ([''/condition1/x'', ''/condition2/x'', ''/condition1/y''],
                               [''/condition1/x'', ''/condition1/y''])\<rparr>)"
    by (simp add: repeat_reports_def counter_lib_def world0_def py_sample_def Let_def)
  from repeat_reports_two_folders [OF counter_lib_sample_ok v k1] v k1 counter_lib_sample_ok
  show ?thesis unfolding e by simp
qed

text \<open>
  C10. \<open>repeat_reports\<close> writes to the list it is given: the reference it returns is the
  one it received, no list object is created, and after the call that list object
  holds its former elements followed by \<open>k\<close> more (\<open>2k\<close> with two folders).
  \<open>shuffle_reports\<close> on the same list and state, by contrast, returns another reference
  and leaves the list as it was.
\<close>

theorem repeat_reports_mutates_argument:
  assumes "sample_ok L" and "original_list < length (heap s)" and "0 \<le> k"
    and "k \<le> int (length (if two_folders
            then filter (contains ''condition1'') (heap s ! original_list)
            else heap s ! original_list))"
  shows "\<exists>s'. repeat_reports L s original_list k two_folders = (Inr original_list, s') \<and>
     length (heap s') = length (heap s) \<and>
     length (heap s' ! original_list) =
       length (heap s ! original_list) + (if two_folders then 2 * nat k else nat k) \<and>
     take (length (heap s ! original_list)) (heap s' ! original_list) = heap s ! original_list \<and>
     fst (shuffle_reports L s original_list seed) \<noteq> original_list \<and>
     heap (snd (shuffle_reports L s original_list seed)) ! original_list = heap s ! original_list"
proof (cases two_folders)
  case True
  with assms(4) have "k \<le> int (length (filter (contains ''condition1'') (heap s ! original_list)))"
    by simp
  from repeat_two_effect [OF assms(1,3) this] obtain picks g'
    where r: "repeat_reports L s original_list k True =
        (Inr original_list,
         s\<lparr>heap := (heap s)[original_list := heap s ! original_list @ picks @
               map (replace ''condition1'' ''condition2'') picks],
           rng := g',
           demo_txt := Some (heap s ! original_list,
             filter (contains ''condition1'') (heap s ! original_list))\<rparr>)"
      and p: "length picks = nat k"
    by blast
  from p assms(2) True show ?thesis
    by (simp add: r shuffle_reports_eq nth_append)
next
  case False
  with assms(4) have "k \<le> int (length (heap s ! original_list))" by simp
  from repeat_single_effect [OF assms(1,3) this] obtain picks g'
    where r: "repeat_reports L s original_list k False =
        (Inr original_list,
         s\<lparr>heap := (heap s)[original_list := heap s ! original_list @ picks], rng := g'\<rparr>)"
      and p: "length picks = nat k"
    by blast
  from p assms(2) False show ?thesis
    by (simp add: r shuffle_reports_eq nth_append)
qed

theorem repeat_reports_mutates_argument_witness:
  "sample_ok counter_lib \<and> 0 < length (heap world0) \<and> (0::int) \<le> 2 \<and>
   2 \<le> int (length (if False then filter (contains ''condition1'') (heap world0 ! 0)
                          else heap world0 ! 0)) \<and>
   fst (repeat_reports counter_lib world0 0 2 False) = Inr 0 \<and>
   length (heap world0 ! 0) = 3 \<and>
   length (heap (snd (repeat_reports counter_lib world0 0 2 False)) ! 0) = 5 \<and>
   fst (shuffle_reports counter_lib world0 0 5) = 2 \<and>
   heap (snd (shuffle_reports counter_lib world0 0 5)) ! 0 = heap world0 ! 0"
proof -
  have v: "0 < length (heap world0)" by (simp add: world0_heap)
  have k0: "(0::int) \<le> 2" by simp
  have k1: "2 \<le> int (length (if False then filter (contains ''condition1'') (heap world0 ! 0)
                          else heap world0 ! 0))" by (simp add: world0_heap)
  have e: "repeat_reports counter_lib world0 0 2 False =
     (Inr 0, \<lparr>heap = [[''a'', ''b'', ''c'', ''a'', ''b''],
                      [''/condition1/x'', ''/condition2/x'', ''/condition1/y'']],
              rng = 764248, demo_txt = None\<rparr>)"
    by (simp add: repeat_reports_def counter_lib_def world0_def py_sample_def Let_def)
  from repeat_reports_mutates_argument [OF counter_lib_sample_ok v k0 k1, of 5]
    v k1 counter_lib_sample_ok
  show ?thesis by (simp add: e shuffle_world0 world0_heap)
qed

end
